theory Spec2Isabelle
  imports Main
begin

section \<open>Python values and exceptions\<close>

text \<open>
  The configuration values, the query-string flags and the flags handed to
  \<^verbatim>\<open>get_schema\<close> are dynamically typed in the source: \<^verbatim>\<open>None\<close>, a bool, an int or a
  string. Exceptions are values of \<open>error\<close>; a function that may raise returns
  \<open>error + 'a\<close> with \<open>Inl\<close> for the exception.
\<close>

datatype pyval = PNone | PBool bool | PInt int | PStr string

datatype error =
    KeyError
  | ValueError
  | TypeError
  | JSONSchemaNotFound
  | JsonRefError
  | HTTPException nat
  | OtherError string

text \<open>Truth value testing (\<^verbatim>\<open>if x:\<close>, \<^verbatim>\<open>not x\<close>, \<^verbatim>\<open>x or y\<close>).\<close>

fun truthy :: "pyval \<Rightarrow> bool" where
  "truthy PNone = False"
| "truthy (PBool b) = b"
| "truthy (PInt i) = (i \<noteq> 0)"
| "truthy (PStr s) = (s \<noteq> [])"

definition py_or :: "pyval \<Rightarrow> pyval \<Rightarrow> pyval" where
  "py_or a b = (if truthy a then a else b)"

text \<open>\<^verbatim>\<open>str(n)\<close> for a natural number: its decimal digits.\<close>

definition digit_char :: "nat \<Rightarrow> char" where
  "digit_char d = char_of (of_char (CHR ''0'') + d)"

function nat_to_dec :: "nat \<Rightarrow> string" where
  "nat_to_dec n = (if n < 10 then [digit_char n] else nat_to_dec (n div 10) @ [digit_char (n mod 10)])"
  by pat_completeness auto
termination
  by (relation "measure id") auto

text \<open>\<^verbatim>\<open>'{0}'.format(v)\<close>, that is \<^verbatim>\<open>str(v)\<close>.\<close>

fun py_str :: "pyval \<Rightarrow> string" where
  "py_str PNone = ''None''"
| "py_str (PBool b) = (if b then ''True'' else ''False'')"
| "py_str (PInt i) = (if i < 0 then CHR ''-'' # nat_to_dec (nat (- i)) else nat_to_dec (nat i))"
| "py_str (PStr s) = s"

text \<open>\<^verbatim>\<open>s.startswith(p)\<close>.\<close>

definition startswith :: "string \<Rightarrow> string \<Rightarrow> bool" where
  "startswith s p = (take (length p) s = p)"

section \<open>ext.py: InvenioJSONSchemas.init_config\<close>

text \<open>
  The application: its configuration dictionary and the warnings its logger has
  received, oldest first.
\<close>

record app =
  config :: "string \<rightharpoonup> pyval"
  logger_warnings :: "string list"

text \<open>\<^verbatim>\<open>app.config.setdefault(k, v)\<close>: stores \<open>v\<close> only when \<open>k\<close> is absent.\<close>

definition setdefault :: "(string \<rightharpoonup> pyval) \<Rightarrow> string \<Rightarrow> pyval \<Rightarrow> (string \<rightharpoonup> pyval)" where
  "setdefault d k v = (case d k of None \<Rightarrow> d(k \<mapsto> v) | Some _ \<Rightarrow> d)"

text \<open>
  The loop of \<^verbatim>\<open>init_config\<close> over \<^verbatim>\<open>dir(config)\<close>. The module \<^verbatim>\<open>config\<close> is
  not among the sources, so it is a parameter: the list of its attributes, name and
  value, in the order \<^verbatim>\<open>dir\<close> gives them.
\<close>

fun init_config_loop :: "(string \<times> pyval) list \<Rightarrow> (string \<rightharpoonup> pyval) \<Rightarrow> (string \<rightharpoonup> pyval)" where
  "init_config_loop [] d = d"
| "init_config_loop ((k, v) # kvs) d =
     init_config_loop kvs (if startswith k ''JSONSCHEMAS_'' then setdefault d k v else d)"

text \<open>
  \<^verbatim>\<open>init_config\<close> returns the application as it has left it and whether it raised:
  \<^verbatim>\<open>app.config['JSONSCHEMAS_HOST']\<close> raises \<^verbatim>\<open>KeyError\<close> when neither the
  application nor the module sets the host; the keys filled in before stay.
\<close>

definition init_config :: "(string \<times> pyval) list \<Rightarrow> app \<Rightarrow> app \<times> (error + unit)" where
  "init_config config_module a =
     (let a1 = a\<lparr>config := init_config_loop config_module (config a)\<rparr> in
      case config a1 ''JSONSCHEMAS_HOST'' of
        None \<Rightarrow> (a1, Inl KeyError)
      | Some host_setting \<Rightarrow>
          if \<not> truthy host_setting \<or> host_setting = PStr ''localhost''
          then (a1\<lparr>logger_warnings := logger_warnings a1 @
                    [''JSONSCHEMAS_HOST is set to '' @ py_str host_setting]\<rparr>, Inr ())
          else (a1, Inr ()))"

section \<open>Strings\<close>

definition ascii_lowercase :: string where
  "ascii_lowercase = ''abcdefghijklmnopqrstuvwxyz''"

definition ascii_uppercase :: string where
  "ascii_uppercase = ''ABCDEFGHIJKLMNOPQRSTUVWXYZ''"

definition digits :: string where
  "digits = ''0123456789''"

text \<open>\<^verbatim>\<open>s.lower()\<close> on ASCII text.\<close>

definition lower_char :: "char \<Rightarrow> char" where
  "lower_char c = (case map_of (zip ascii_uppercase ascii_lowercase) c of Some d \<Rightarrow> d | None \<Rightarrow> c)"

definition lower :: "string \<Rightarrow> string" where
  "lower s = map lower_char s"

text \<open>\<^verbatim>\<open>s.lstrip(c)\<close> for a single character \<open>c\<close>.\<close>

definition lstrip :: "char \<Rightarrow> string \<Rightarrow> string" where
  "lstrip c s = dropWhile (\<lambda>x. x = c) s"

text \<open>
  \<^verbatim>\<open>s.split(c, 1)\<close> where \<open>c\<close> occurs in \<open>s\<close>: the text before the first \<open>c\<close> and
  the text after it.
\<close>

definition before_first :: "char \<Rightarrow> string \<Rightarrow> string" where
  "before_first c s = takeWhile (\<lambda>x. x \<noteq> c) s"

definition after_first :: "char \<Rightarrow> string \<Rightarrow> string" where
  "after_first c s = tl (dropWhile (\<lambda>x. x \<noteq> c) s)"

text \<open>
  \<^verbatim>\<open>int(s)\<close> for a string of ASCII characters, \<open>None\<close> for \<^verbatim>\<open>ValueError\<close>:
  white space around the number is dropped, a sign may come first, then decimal
  digits, where single underscores may stand between two digits.
\<close>

definition whitespace :: string where
  "whitespace = [CHR 0x09, CHR 0x0A, CHR 0x0B, CHR 0x0C, CHR 0x0D, CHR 0x20]"

definition strip :: "string \<Rightarrow> string" where
  "strip s = rev (dropWhile (\<lambda>c. c \<in> set whitespace) (rev (dropWhile (\<lambda>c. c \<in> set whitespace) s)))"

definition digit_of :: "char \<Rightarrow> nat option" where
  "digit_of c = map_of (zip digits [0, 1, 2, 3, 4, 5, 6, 7, 8, 9]) c"

fun dec_digits :: "nat \<Rightarrow> bool \<Rightarrow> string \<Rightarrow> nat option" where
  "dec_digits acc after_digit [] = (if after_digit then Some acc else None)"
| "dec_digits acc after_digit (c # cs) =
     (case digit_of c of
        Some d \<Rightarrow> dec_digits (10 * acc + d) True cs
      | None \<Rightarrow> if c = CHR ''_'' \<and> after_digit then dec_digits acc False cs else None)"

definition py_int :: "string \<Rightarrow> int option" where
  "py_int s =
     (case strip s of
        [] \<Rightarrow> None
      | c # cs \<Rightarrow>
          if c = CHR ''-'' then map_option (\<lambda>n. - int n) (dec_digits 0 False cs)
          else if c = CHR ''+'' then map_option int (dec_digits 0 False cs)
          else map_option int (dec_digits 0 False (c # cs)))"

section \<open>urllib: urlsplit\<close>

text \<open>
  \<^verbatim>\<open>urlsplit\<close> of the standard library (the function as Python 2.7 and 3.6 have
  it), on ASCII text. The scheme is the text before the first colon when that text
  is made of scheme characters and what follows is not a port number; a network
  location follows \<^verbatim>\<open>//\<close> and ends before the first of \<^verbatim>\<open>/?#\<close>; one bracket without the
  other in it raises \<^verbatim>\<open>ValueError("Invalid IPv6 URL")\<close>.
\<close>

record split_result =
  scheme :: string
  netloc :: string
  path :: string
  query :: string
  fragment :: string

definition scheme_chars :: string where
  "scheme_chars = ascii_lowercase @ ascii_uppercase @ digits @ ''+-.''"

definition splitnetloc :: "string \<Rightarrow> string \<times> string" where
  "splitnetloc url =
     (takeWhile (\<lambda>c. c \<notin> set ''/?#'') (drop 2 url), dropWhile (\<lambda>c. c \<notin> set ''/?#'') (drop 2 url))"

definition urlsplit_rest :: "string \<Rightarrow> string \<Rightarrow> error + split_result" where
  "urlsplit_rest sch url =
     (let (nl, url1) = (if take 2 url = ''//'' then splitnetloc url else ([], url)) in
      if (CHR ''['' \<in> set nl \<and> CHR '']'' \<notin> set nl) \<or> (CHR '']'' \<in> set nl \<and> CHR ''['' \<notin> set nl)
      then Inl ValueError
      else
        let (url2, frag) = (if CHR ''#'' \<in> set url1
                            then (before_first (CHR ''#'') url1, after_first (CHR ''#'') url1)
                            else (url1, []));
            (url3, qry) = (if CHR ''?'' \<in> set url2
                           then (before_first (CHR ''?'') url2, after_first (CHR ''?'') url2)
                           else (url2, []))
        in Inr \<lparr>scheme = sch, netloc = nl, path = url3, query = qry, fragment = frag\<rparr>)"

definition urlsplit :: "string \<Rightarrow> error + split_result" where
  "urlsplit url =
     (let head = before_first (CHR '':'') url; rest = after_first (CHR '':'') url in
      if CHR '':'' \<in> set url \<and> head \<noteq> [] then
        if head = ''http'' then urlsplit_rest ''http'' rest
        else if list_all (\<lambda>c. c \<in> set scheme_chars) head
                \<and> (rest = [] \<or> list_ex (\<lambda>c. c \<notin> set digits) rest)
        then urlsplit_rest (lower head) rest
        else urlsplit_rest [] url
      else urlsplit_rest [] url)"

section \<open>werkzeug: URL quoting, the routing rule and its map\<close>

text \<open>
  The routing of werkzeug as its 0.x releases have it (regular expressions compiled
  from the rule), on ASCII text.
\<close>

text \<open>
  \<^verbatim>\<open>url_quote(s, safe=...)\<close>: a character that is neither in \<open>safe\<close> nor always
  safe becomes \<^verbatim>\<open>%XX\<close>, its code in upper-case hexadecimal.
\<close>

definition always_safe :: string where
  "always_safe = ascii_lowercase @ ascii_uppercase @ digits @ ''_.-+''"

definition hex_digit :: "nat \<Rightarrow> char" where
  "hex_digit n = ''0123456789ABCDEF'' ! n"

definition percent_encode :: "char \<Rightarrow> string" where
  "percent_encode c =
     [CHR ''%'', hex_digit (of_char c div 16), hex_digit (of_char c mod 16)]"

definition url_quote :: "string \<Rightarrow> string \<Rightarrow> string" where
  "url_quote safe s =
     concat (map (\<lambda>c. if c \<in> set (safe @ always_safe) then [c] else percent_encode c) s)"

text \<open>
  The one rule of the map: \<^verbatim>\<open>Rule('{0}/<path:path>'.format(endpoint), endpoint='schema',
  host=host)\<close>. \<open>rule_static\<close> is the text of the rule before its variable, the
  configured endpoint and a slash. The model covers an endpoint and a host that are
  plain text, without the \<^verbatim>\<open><\<close> and \<^verbatim>\<open>>\<close> of a variable part.
\<close>

record url_rule =
  rule_static :: string
  rule_endpoint :: string
  rule_host :: string

text \<open>
  \<^verbatim>\<open>Rule.build\<close>: the host, a bar and the static text are quoted with
  \<^verbatim>\<open>safe='/:|+'\<close>, the path converter quotes its value with \<^verbatim>\<open>safe='/:'\<close>, and the
  whole is split at its first bar into the domain part and the path.
\<close>

definition rule_build :: "url_rule \<Rightarrow> string \<Rightarrow> string \<times> string" where
  "rule_build r p =
     (let joined = url_quote ''/:|+'' (rule_host r) @ url_quote ''/:|+'' ''|''
                   @ url_quote ''/:|+'' (rule_static r) @ url_quote ''/:'' p
      in (before_first (CHR ''|'') joined, after_first (CHR ''|'') joined))"

text \<open>
  \<^verbatim>\<open>MapAdapter.build(..., force_external=True)\<close> on a map with host matching and
  the script name \<^verbatim>\<open>/\<close>: scheme, \<^verbatim>\<open>//\<close>, the rule's domain part, a slash and the
  built path without its leading slashes.
\<close>

definition adapter_build :: "url_rule \<Rightarrow> string \<Rightarrow> string \<Rightarrow> string" where
  "adapter_build r url_scheme p =
     (let (domain_part, built) = rule_build r p in
      (if url_scheme \<noteq> [] then url_scheme @ '':'' else []) @ ''//'' @ domain_part
        @ ''/'' @ lstrip (CHR ''/'') built)"

text \<open>
  The path converter's pattern \<^verbatim>\<open>[^/].*?\<close> up to the \<^verbatim>\<open>$\<close> that ends the rule's
  regular expression: a first character that is not a slash, then characters other
  than a line feed up to the end of the text, or up to a line feed that ends it.
\<close>

fun path_converter :: "string \<Rightarrow> string option" where
  "path_converter [] = None"
| "path_converter (c # cs) =
     (if c = CHR ''/'' then None
      else if CHR 0x0A \<notin> set cs then Some (c # cs)
      else if last cs = CHR 0x0A \<and> CHR 0x0A \<notin> set (butlast cs) then Some (c # butlast cs)
      else None)"

text \<open>
  \<^verbatim>\<open>MapAdapter.match(path_info)\<close> for the adapter bound to \<open>server_name\<close>: the
  text \<^verbatim>\<open>server_name|/path\<close> is matched against the rule's host, a bar, the rule's
  static text and the path converter. The text is formatted from
  \<^verbatim>\<open>self.server_name or self.subdomain\<close>, and the subdomain of a host-matching map
  is \<^verbatim>\<open>None\<close>, so an empty server name reads \<^verbatim>\<open>None\<close> there. No match raises
  \<^verbatim>\<open>NotFound\<close>, an \<^verbatim>\<open>HTTPException\<close> with code 404.
\<close>

definition adapter_match :: "url_rule \<Rightarrow> string \<Rightarrow> string \<Rightarrow> error + (string \<times> string)" where
  "adapter_match r server_name path_info =
     (let subject = (if server_name = [] then ''None'' else server_name) @ ''|''
                    @ (if path_info = [] then [] else ''/'' @ lstrip (CHR ''/'') path_info);
          fixed = rule_host r @ ''|'' @ rule_static r
      in if startswith subject fixed
         then (case path_converter (drop (length fixed) subject) of
                 Some p \<Rightarrow> Inr (rule_endpoint r, p)
               | None \<Rightarrow> Inl (HTTPException 404))
         else Inl (HTTPException 404))"

text \<open>\<^verbatim>\<open>Map.bind(server_name)\<close> lower-cases the server name.\<close>

definition map_bind :: "string \<Rightarrow> string" where
  "map_bind server_name = lower server_name"

section \<open>ext.py: InvenioJSONSchemasState\<close>

text \<open>
  The three settings the state reads from \<^verbatim>\<open>app.config\<close>, strings as the module
  \<^verbatim>\<open>config\<close> defines them.
\<close>

record settings =
  JSONSCHEMAS_ENDPOINT :: string
  JSONSCHEMAS_HOST :: string
  JSONSCHEMAS_URL_SCHEME :: string

record state =
  app_config :: settings
  url_map :: url_rule

text \<open>
  The constructor. \<^verbatim>\<open>Rule\<close> raises \<^verbatim>\<open>ValueError\<close> for a rule that does not start
  with a slash.
\<close>

definition InvenioJSONSchemasState :: "settings \<Rightarrow> error + state" where
  "InvenioJSONSchemasState cfg =
     (if startswith (JSONSCHEMAS_ENDPOINT cfg @ ''/<path:path>'') ''/''
      then Inr \<lparr>app_config = cfg,
                url_map = \<lparr>rule_static = JSONSCHEMAS_ENDPOINT cfg @ ''/'',
                           rule_endpoint = ''schema'',
                           rule_host = JSONSCHEMAS_HOST cfg\<rparr>\<rparr>
      else Inl ValueError)"

definition list_schemas :: "state \<Rightarrow> string list" where
  "list_schemas st = []"

definition path_to_url :: "state \<Rightarrow> string \<Rightarrow> string" where
  "path_to_url st p = adapter_build (url_map st) (JSONSCHEMAS_URL_SCHEME (app_config st)) p"

text \<open>
  \<^verbatim>\<open>url_to_path\<close>: \<^verbatim>\<open>urlsplit\<close> stands before the \<^verbatim>\<open>try\<close>, so what it raises
  leaves the function; an \<^verbatim>\<open>HTTPException\<close> of the match is turned into \<^verbatim>\<open>None\<close>.
\<close>

fun is_HTTPException :: "error \<Rightarrow> bool" where
  "is_HTTPException (HTTPException code) = True"
| "is_HTTPException e = False"

definition url_to_path :: "state \<Rightarrow> string \<Rightarrow> error + string option" where
  "url_to_path st url =
     (case urlsplit url of
        Inl e \<Rightarrow> Inl e
      | Inr parts \<Rightarrow>
          (case adapter_match (url_map st) (map_bind (netloc parts)) (path parts) of
             Inl e \<Rightarrow> if is_HTTPException e then Inr None else Inl e
           | Inr (loader, p) \<Rightarrow> if loader = ''schema'' then Inr (Some p) else Inr None))"

subsection \<open>get_schema and its cache\<close>

text \<open>
  What \<^verbatim>\<open>get_schema\<close> reads from the request context: the query arguments in
  their order, \<^verbatim>\<open>request.base_url\<close> and the identity of \<^verbatim>\<open>current_user\<close>.
\<close>

record request =
  args :: "(string \<times> string) list"
  base_url :: string
  current_user :: nat

text \<open>
  The pluggable parts, over any type \<open>'doc\<close> of schema documents: the loader that
  \<^verbatim>\<open>JSONSCHEMAS_LOADER_CLS\<close> names (\<open>None\<close> when the setting is \<^verbatim>\<open>None\<close>; an
  instance called on a URL returns the document or raises), the resolver that
  \<^verbatim>\<open>JSONSCHEMAS_RESOLVER_CLS\<close> names, and \<^verbatim>\<open>JsonRef.replace_refs\<close> of the jsonref
  library, called with the schema, the base URI and the loader.
\<close>

record 'doc components =
  loader_cls :: "(string \<Rightarrow> error + 'doc) option"
  resolver_cls :: "'doc \<Rightarrow> error + 'doc"
  replace_refs :: "'doc \<Rightarrow> string \<Rightarrow> (string \<Rightarrow> error + 'doc) option \<Rightarrow> 'doc"

text \<open>
  The observable effects of \<^verbatim>\<open>get_schema\<close>: how often the loader class has been
  instantiated, and the URLs its instances have been called on, oldest first.
\<close>

record calls =
  loader_instances :: nat
  loader_calls :: "string list"

text \<open>
  A function decorated with \<^verbatim>\<open>lru_cache(maxsize)\<close>: the cache holds key and result,
  most recently used first. A hit returns the stored result without running the
  function; a miss runs it and stores what it returns, dropping the least recently
  used entry when the cache is full. A call that raises stores nothing.
\<close>

definition lru_cache_call ::
  "nat \<Rightarrow> ('k \<times> 'v) list \<Rightarrow> 'k \<Rightarrow> ('w \<Rightarrow> (error + 'v) \<times> 'w) \<Rightarrow> 'w
    \<Rightarrow> (error + 'v) \<times> ('k \<times> 'v) list \<times> 'w" where
  "lru_cache_call maxsize cache key compute w =
     (case map_of cache key of
        Some v \<Rightarrow> (Inr v, (key, v) # filter (\<lambda>kv. fst kv \<noteq> key) cache, w)
      | None \<Rightarrow>
          (case compute w of
             (Inl e, w') \<Rightarrow> (Inl e, cache, w')
           | (Inr v, w') \<Rightarrow> (Inr v, take maxsize ((key, v) # cache), w')))"

text \<open>Keys are compared with \<^verbatim>\<open>==\<close>, under which \<^verbatim>\<open>True\<close> is 1 and \<^verbatim>\<open>False\<close> is 0.\<close>

fun key_of :: "pyval \<Rightarrow> pyval" where
  "key_of (PBool b) = PInt (if b then 1 else 0)"
| "key_of v = v"

text \<open>
  The inner function \<^verbatim>\<open>wrapped\<close>. \<^verbatim>\<open>self.loader_cls()\<close> raises \<^verbatim>\<open>TypeError\<close> when
  the class is \<^verbatim>\<open>None\<close>; \<^verbatim>\<open>JSONSchemaNotFound\<close> from the loader is caught and
  \<^verbatim>\<open>abort(404)\<close> raises an \<^verbatim>\<open>HTTPException\<close> with code 404 in its place; every
  other exception of the loader or the resolver leaves the function as it is.
\<close>

definition wrapped ::
  "'doc components \<Rightarrow> state \<Rightarrow> request \<Rightarrow> string \<Rightarrow> pyval \<Rightarrow> pyval \<Rightarrow> calls
    \<Rightarrow> (error + 'doc) \<times> calls" where
  "wrapped env st req p with_refs resolved w =
     (case loader_cls env of
        None \<Rightarrow> (Inl TypeError, w)
      | Some load \<Rightarrow>
          (let w1 = w\<lparr>loader_instances := Suc (loader_instances w),
                      loader_calls := loader_calls w @ [path_to_url st p]\<rparr> in
           case load (path_to_url st p) of
             Inl e \<Rightarrow> (if e = JSONSchemaNotFound then Inl (HTTPException 404) else Inl e, w1)
           | Inr schema \<Rightarrow>
               (let (schema1, w2) =
                      (if truthy with_refs
                       then (replace_refs env schema (base_url req) (Some load),
                             w1\<lparr>loader_instances := Suc (loader_instances w1)\<rparr>)
                       else (schema, w1))
                in if truthy resolved
                   then (case resolver_cls env schema1 of
                           Inl e \<Rightarrow> (Inl e, w2)
                         | Inr schema2 \<Rightarrow> (Inr schema2, w2))
                   else (Inr schema1, w2))))"

text \<open>
  \<^verbatim>\<open>get_schema\<close>: the decorator runs inside the method, so each call makes a new
  function with a new, empty cache, calls it once and drops it with its cache.
\<close>

definition get_schema ::
  "'doc components \<Rightarrow> state \<Rightarrow> request \<Rightarrow> string \<Rightarrow> pyval \<Rightarrow> pyval \<Rightarrow> calls
    \<Rightarrow> (error + 'doc) \<times> calls" where
  "get_schema env st req p with_refs resolved w =
     (let cache = [];
          (r, cache', w') =
             lru_cache_call 1000 cache (st, p, key_of with_refs, key_of resolved, current_user req)
               (wrapped env st req p with_refs resolved) w
      in (r, w'))"

section \<open>views.py: the blueprint's get_schema\<close>

text \<open>
  \<^verbatim>\<open>request.args.get(key, default, type=conv)\<close>: the default when the key is absent
  or when \<open>conv\<close> raises \<^verbatim>\<open>ValueError\<close> on its first value (\<open>None\<close> here), else the
  converted value.
\<close>

definition args_get :: "(string \<times> string) list \<Rightarrow> string \<Rightarrow> pyval \<Rightarrow> (string \<Rightarrow> pyval option) \<Rightarrow> pyval" where
  "args_get a key dflt conv =
     (case map_of a key of
        None \<Rightarrow> dflt
      | Some rv \<Rightarrow> (case conv rv of None \<Rightarrow> dflt | Some v \<Rightarrow> v))"

text \<open>\<^verbatim>\<open>current_app.config.get(key)\<close>: \<^verbatim>\<open>None\<close> when the key is absent.\<close>

definition config_get :: "(string \<rightharpoonup> pyval) \<Rightarrow> string \<Rightarrow> pyval" where
  "config_get cfg key = (case cfg key of None \<Rightarrow> PNone | Some v \<Rightarrow> v)"

text \<open>The two flags of the view, \<open>(with_refs, resolved)\<close>, as it passes them on.\<close>

definition view_flags :: "(string \<rightharpoonup> pyval) \<Rightarrow> (string \<times> string) list \<Rightarrow> pyval \<times> pyval" where
  "view_flags cfg a =
     (let resolved = args_get a ''resolved'' (config_get cfg ''JSONSCHEMAS_RESOLVE_SCHEMA'')
                       (\<lambda>s. map_option PInt (py_int s));
          with_refs = py_or (args_get a ''refs'' (config_get cfg ''JSONSCHEMAS_REPLACE_REFS'')
                               (\<lambda>s. map_option PInt (py_int s))) resolved
      in (with_refs, resolved))"

text \<open>
  The view. \<open>jsonify\<close> is Flask's; only a \<^verbatim>\<open>JsonRefError\<close> it raises is caught and
  answered with \<^verbatim>\<open>abort(404)\<close>. The call of the state's \<^verbatim>\<open>get_schema\<close> stands
  outside the \<^verbatim>\<open>try\<close>.
\<close>

definition views_get_schema ::
  "('doc \<Rightarrow> error + 'resp) \<Rightarrow> (string \<rightharpoonup> pyval) \<Rightarrow> 'doc components \<Rightarrow> state \<Rightarrow> request
    \<Rightarrow> string \<Rightarrow> calls \<Rightarrow> (error + 'resp) \<times> calls" where
  "views_get_schema jsonify cfg env st req schema_path w =
     (let (with_refs, resolved) = view_flags cfg (args req) in
      case get_schema env st req schema_path with_refs resolved w of
        (Inl e, w') \<Rightarrow> (Inl e, w')
      | (Inr schema, w') \<Rightarrow>
          (case jsonify schema of
             Inl e \<Rightarrow> (if e = JsonRefError then Inl (HTTPException 404) else Inl e, w')
           | Inr response \<Rightarrow> (Inr response, w')))"

section \<open>Text that a URL carries unchanged\<close>

text \<open>
  \<open>url_text\<close>: text that \<^verbatim>\<open>Rule.build\<close> leaves as it is and \<^verbatim>\<open>urlsplit\<close> keeps
  in the path, made of letters, digits and the characters \<^verbatim>\<open>_.-/:\<close>.
  \<open>host_text\<close>: a host name with an optional port, in lower case.
  \<open>scheme_text\<close>: a URL scheme, empty or a letter followed by scheme characters
  (what every version of \<^verbatim>\<open>urlsplit\<close> takes for a scheme).
\<close>

definition url_chars :: string where
  "url_chars = ascii_lowercase @ ascii_uppercase @ digits @ ''_.-/:''"

definition url_text :: "string \<Rightarrow> bool" where
  "url_text s = list_all (\<lambda>c. c \<in> set url_chars) s"

definition host_text :: "string \<Rightarrow> bool" where
  "host_text s = list_all (\<lambda>c. c \<in> set (ascii_lowercase @ digits @ ''.-:'')) s"

definition scheme_text :: "string \<Rightarrow> bool" where
  "scheme_text s =
     (list_all (\<lambda>c. c \<in> set scheme_chars) s
      \<and> (case s of [] \<Rightarrow> True | c # cs \<Rightarrow> c \<in> set (ascii_lowercase @ ascii_uppercase)))"

section \<open>Properties of init_config\<close>

lemma init_config_loop_present:
  "d k = Some v \<Longrightarrow> init_config_loop kvs d k = Some v"
proof (induction kvs arbitrary: d)
  case Nil
  then show ?case by simp
next
  case (Cons kv kvs)
  obtain k' v' where kv: "kv = (k', v')" by (cases kv)
  have "(if startswith k' ''JSONSCHEMAS_'' then setdefault d k' v' else d) k = Some v"
    using Cons.prems by (auto simp: setdefault_def split: option.splits)
  then show ?case
    unfolding kv by (simp add: Cons.IH del: fun_upd_apply)
qed

lemma init_config_loop_other:
  "\<not> startswith k ''JSONSCHEMAS_'' \<Longrightarrow> init_config_loop kvs d k = d k"
proof (induction kvs arbitrary: d)
  case Nil
  then show ?case by simp
next
  case (Cons kv kvs)
  obtain k' v' where kv: "kv = (k', v')" by (cases kv)
  have step: "(if startswith k' ''JSONSCHEMAS_'' then setdefault d k' v' else d) k = d k"
    using Cons.prems by (auto simp: setdefault_def split: option.splits)
  have "init_config_loop (kv # kvs) d k
      = init_config_loop kvs (if startswith k' ''JSONSCHEMAS_'' then setdefault d k' v' else d) k"
    unfolding kv by simp
  also have "\<dots> = (if startswith k' ''JSONSCHEMAS_'' then setdefault d k' v' else d) k"
    by (rule Cons.IH [OF Cons.prems])
  also note step
  finally show ?case .
qed


lemma init_config_loop_absent:
  "d k = None \<Longrightarrow> startswith k ''JSONSCHEMAS_'' \<Longrightarrow> init_config_loop kvs d k = map_of kvs k"
proof (induction kvs arbitrary: d)
  case Nil
  then show ?case by simp
next
  case (Cons kv kvs)
  obtain k' v' where kv: "kv = (k', v')" by (cases kv)
  show ?case
  proof (cases "k' = k")
    case True
    have "setdefault d k v' k = Some v'"
      using Cons.prems(1) by (simp add: setdefault_def)
    then have "init_config_loop kvs (setdefault d k v') k = Some v'"
      by (rule init_config_loop_present)
    moreover have "init_config_loop (kv # kvs) d k = init_config_loop kvs (setdefault d k v') k"
      unfolding kv using True Cons.prems(2) by simp
    moreover have "map_of (kv # kvs) k = Some v'"
      unfolding kv using True by simp
    ultimately show ?thesis by simp
  next
    case False
    have "(if startswith k' ''JSONSCHEMAS_'' then setdefault d k' v' else d) k = None"
      using Cons.prems(1) False by (auto simp: setdefault_def split: option.splits)
    then have "init_config_loop kvs (if startswith k' ''JSONSCHEMAS_'' then setdefault d k' v' else d) k
        = map_of kvs k"
      using Cons.prems(2) by (rule Cons.IH)
    moreover have "init_config_loop (kv # kvs) d k
        = init_config_loop kvs (if startswith k' ''JSONSCHEMAS_'' then setdefault d k' v' else d) k"
      unfolding kv by simp
    moreover have "map_of (kv # kvs) k = map_of kvs k"
      unfolding kv using False by simp
    ultimately show ?thesis by simp
  qed
qed

lemma config_init_config:
  "config (fst (init_config m a)) = init_config_loop m (config a)"
  by (simp add: init_config_def Let_def split: option.splits)

text \<open>
  Claim C9. \<^verbatim>\<open>init_config\<close> never overwrites a key the application's configuration
  already holds: every key that is present keeps its value, a key without the
  \<^verbatim>\<open>JSONSCHEMAS_\<close> prefix is left exactly as it was (present or absent), and an
  absent key with the prefix gets the module's default, when the module has one.
  This holds for the configuration the call leaves behind whether or not it raises.
\<close>

theorem init_config_only_fills_absent:
  "(config a k = Some v \<longrightarrow> config (fst (init_config m a)) k = Some v)
   \<and> (\<not> startswith k ''JSONSCHEMAS_'' \<longrightarrow> config (fst (init_config m a)) k = config a k)
   \<and> (config a k = None \<and> startswith k ''JSONSCHEMAS_''
        \<longrightarrow> config (fst (init_config m a)) k = map_of m k)"
proof (intro conjI impI)
  assume "config a k = Some v"
  then show "config (fst (init_config m a)) k = Some v"
    unfolding config_init_config by (rule init_config_loop_present)
next
  assume "\<not> startswith k ''JSONSCHEMAS_''"
  then show "config (fst (init_config m a)) k = config a k"
    unfolding config_init_config by (rule init_config_loop_other)
next
  assume "config a k = None \<and> startswith k ''JSONSCHEMAS_''"
  then show "config (fst (init_config m a)) k = map_of m k"
    unfolding config_init_config by (simp add: init_config_loop_absent)
qed

text \<open>
  The theorem at a concrete application: the host the application has set survives,
  a foreign key is untouched, a module attribute without the prefix is not copied,
  and the absent endpoint is filled in.
\<close>

theorem init_config_only_fills_absent_witness:
  "(let m = [(''JSONSCHEMAS_ENDPOINT'', PStr ''/schemas''), (''JSONSCHEMAS_HOST'', PStr ''localhost''),
             (''absolute_import'', PNone)];
        a = \<lparr>config = [''JSONSCHEMAS_HOST'' \<mapsto> PStr ''example.org'', ''DEBUG'' \<mapsto> PBool True],
             logger_warnings = []\<rparr>;
        c = config (fst (init_config m a))
    in config a ''JSONSCHEMAS_HOST'' = Some (PStr ''example.org'')
     \<and> c ''JSONSCHEMAS_HOST'' = Some (PStr ''example.org'')
     \<and> \<not> startswith ''DEBUG'' ''JSONSCHEMAS_'' \<and> c ''DEBUG'' = Some (PBool True)
     \<and> \<not> startswith ''absolute_import'' ''JSONSCHEMAS_'' \<and> c ''absolute_import'' = None
     \<and> config a ''JSONSCHEMAS_ENDPOINT'' = None \<and> startswith ''JSONSCHEMAS_ENDPOINT'' ''JSONSCHEMAS_''
     \<and> c ''JSONSCHEMAS_ENDPOINT'' = Some (PStr ''/schemas'')
     \<and> snd (init_config m a) = Inr ())"
proof -
  let ?m = "[(''JSONSCHEMAS_ENDPOINT'', PStr ''/schemas''), (''JSONSCHEMAS_HOST'', PStr ''localhost''),
             (''absolute_import'', PNone)]"
  let ?a = "\<lparr>config = [''JSONSCHEMAS_HOST'' \<mapsto> PStr ''example.org'', ''DEBUG'' \<mapsto> PBool True],
             logger_warnings = []\<rparr>"
  have returns: "snd (init_config ?m ?a) = Inr ()"
    by (simp add: init_config_def Let_def startswith_def setdefault_def)
  have prefixes: "\<not> startswith ''DEBUG'' ''JSONSCHEMAS_''"
      "\<not> startswith ''absolute_import'' ''JSONSCHEMAS_''"
      "startswith ''JSONSCHEMAS_ENDPOINT'' ''JSONSCHEMAS_''"
    by (simp_all add: startswith_def)
  from returns prefixes
    init_config_only_fills_absent
      [where a = ?a and m = ?m and k = "''JSONSCHEMAS_HOST''" and v = "PStr ''example.org''"]
    init_config_only_fills_absent
      [where a = ?a and m = ?m and k = "''DEBUG''" and v = "PBool True"]
    init_config_only_fills_absent
      [where a = ?a and m = ?m and k = "''absolute_import''" and v = "PNone"]
    init_config_only_fills_absent
      [where a = ?a and m = ?m and k = "''JSONSCHEMAS_ENDPOINT''" and v = "PNone"]
  show ?thesis
    by (simp add: Let_def)
qed

section \<open>Properties of the view's flags\<close>

lemma truthy_py_or: "truthy b \<Longrightarrow> truthy (py_or a b)"
  by (simp add: py_or_def)

text \<open>
  Claim C4. In the view, a true \<^verbatim>\<open>resolved\<close> flag makes \<^verbatim>\<open>with_refs\<close> true whatever
  the query says about \<^verbatim>\<open>refs\<close> (so also for \<^verbatim>\<open>refs=0\<close>); without a \<^verbatim>\<open>resolved\<close>
  argument the flag is the configured \<^verbatim>\<open>JSONSCHEMAS_RESOLVE_SCHEMA\<close>; without a
  \<^verbatim>\<open>refs\<close> argument \<^verbatim>\<open>with_refs\<close> is the configured \<^verbatim>\<open>JSONSCHEMAS_REPLACE_REFS\<close>,
  or the \<^verbatim>\<open>resolved\<close> flag when that default is false.
\<close>

theorem resolved_forces_with_refs:
  "(truthy (snd (view_flags cfg a)) \<longrightarrow> truthy (fst (view_flags cfg a)))
   \<and> (map_of a ''resolved'' = None
        \<longrightarrow> snd (view_flags cfg a) = config_get cfg ''JSONSCHEMAS_RESOLVE_SCHEMA'')
   \<and> (map_of a ''refs'' = None
        \<longrightarrow> fst (view_flags cfg a)
            = py_or (config_get cfg ''JSONSCHEMAS_REPLACE_REFS'') (snd (view_flags cfg a)))"
  by (simp add: view_flags_def Let_def args_get_def truthy_py_or)

text \<open>
  The query \<^verbatim>\<open>?refs=0&resolved=1\<close> gives both flags the value 1, and an empty query
  with the defaults \<^verbatim>\<open>JSONSCHEMAS_RESOLVE_SCHEMA = True\<close>,
  \<^verbatim>\<open>JSONSCHEMAS_REPLACE_REFS = False\<close> gives both flags \<^verbatim>\<open>True\<close>.
\<close>

theorem resolved_forces_with_refs_witness:
  "view_flags Map.empty [(''refs'', ''0''), (''resolved'', ''1'')] = (PInt 1, PInt 1)
   \<and> truthy (snd (view_flags Map.empty [(''refs'', ''0''), (''resolved'', ''1'')]))
   \<and> truthy (fst (view_flags Map.empty [(''refs'', ''0''), (''resolved'', ''1'')]))
   \<and> map_of ([] :: (string \<times> string) list) ''resolved'' = None
   \<and> map_of ([] :: (string \<times> string) list) ''refs'' = None
   \<and> view_flags [''JSONSCHEMAS_RESOLVE_SCHEMA'' \<mapsto> PBool True, ''JSONSCHEMAS_REPLACE_REFS'' \<mapsto> PBool False] []
       = (PBool True, PBool True)"
proof -
  have a: "view_flags Map.empty [(''refs'', ''0''), (''resolved'', ''1'')] = (PInt 1, PInt 1)"
    by code_simp
  have c: "config_get [''JSONSCHEMAS_RESOLVE_SCHEMA'' \<mapsto> PBool True, ''JSONSCHEMAS_REPLACE_REFS'' \<mapsto> PBool False]
             ''JSONSCHEMAS_RESOLVE_SCHEMA'' = PBool True"
          "config_get [''JSONSCHEMAS_RESOLVE_SCHEMA'' \<mapsto> PBool True, ''JSONSCHEMAS_REPLACE_REFS'' \<mapsto> PBool False]
             ''JSONSCHEMAS_REPLACE_REFS'' = PBool False"
    by (simp_all add: config_get_def)
  from a c
    resolved_forces_with_refs
      [where cfg = Map.empty and a = "[(''refs'', ''0''), (''resolved'', ''1'')]"]
    resolved_forces_with_refs
      [where cfg = "[''JSONSCHEMAS_RESOLVE_SCHEMA'' \<mapsto> PBool True,
                     ''JSONSCHEMAS_REPLACE_REFS'' \<mapsto> PBool False]" and a = "[]"]
  show ?thesis
    by (simp add: py_or_def prod_eq_iff)
qed

section \<open>Properties of get_schema and its cache\<close>

lemma lru_cache_call_empty:
  "lru_cache_call n [] key compute w =
     (case compute w of (Inl e, w') \<Rightarrow> (Inl e, [], w') | (Inr v, w') \<Rightarrow> (Inr v, take n [(key, v)], w'))"
  by (simp add: lru_cache_call_def)

lemma get_schema_wrapped:
  "get_schema env st req p with_refs resolved w = wrapped env st req p with_refs resolved w"
  by (simp add: get_schema_def lru_cache_call_empty split: prod.splits sum.splits)

lemma wrapped_success:
  assumes "wrapped env st req p with_refs resolved w = (Inr d, w')"
  shows "Suc (loader_instances w) \<le> loader_instances w'
       \<and> loader_calls w' = loader_calls w @ [path_to_url st p]"
  using assms
  by (auto simp: wrapped_def Let_def split: option.splits sum.splits if_splits)

text \<open>
  Claim C8. The cache of \<^verbatim>\<open>wrapped\<close> is new and empty in every call of
  \<^verbatim>\<open>get_schema\<close>, so the call always runs the body of \<^verbatim>\<open>wrapped\<close>: its result and
  effects are those of the uncached function. Every call that returns a schema has
  instantiated the loader class and called the instance on the URL of the path;
  nothing is taken from an earlier call.
\<close>

theorem get_schema_cache_never_hits:
  "get_schema env st req p with_refs resolved w = wrapped env st req p with_refs resolved w
   \<and> (get_schema env st req p with_refs resolved w = (Inr d, w')
        \<longrightarrow> Suc (loader_instances w) \<le> loader_instances w'
          \<and> loader_calls w' = loader_calls w @ [path_to_url st p])
   \<and> (get_schema env st req p with_refs resolved w = (Inr d, w')
        \<and> get_schema env st req p with_refs resolved w' = (Inr d', w'')
        \<longrightarrow> loader_calls w'' = loader_calls w @ [path_to_url st p, path_to_url st p])"
  using wrapped_success [of env st req p with_refs resolved w d w']
    wrapped_success [of env st req p with_refs resolved w' d' w'']
  by (simp add: get_schema_wrapped)

text \<open>
  Two calls in a row with \<^verbatim>\<open>with_refs\<close> set: each one calls the loader on the URL
  and instantiates the class twice.
\<close>

theorem get_schema_cache_never_hits_witness:
  "get_schema \<lparr>loader_cls = Some (\<lambda>url. Inr ''{}''), resolver_cls = Inr, replace_refs = (\<lambda>d b l. d)\<rparr>
      \<lparr>app_config = \<lparr>JSONSCHEMAS_ENDPOINT = ''/schemas'', JSONSCHEMAS_HOST = ''example.org'',
                      JSONSCHEMAS_URL_SCHEME = ''https''\<rparr>,
        url_map = \<lparr>rule_static = ''/schemas/'', rule_endpoint = ''schema'', rule_host = ''example.org''\<rparr>\<rparr>
      \<lparr>args = [], base_url = ''https://example.org/schemas/a.json'', current_user = 1\<rparr>
      ''a.json'' (PBool True) (PBool False)
      \<lparr>loader_instances = 0, loader_calls = []\<rparr>
    = (Inr ''{}'', \<lparr>loader_instances = 2, loader_calls = [''https://example.org/schemas/a.json'']\<rparr>)
   \<and> get_schema \<lparr>loader_cls = Some (\<lambda>url. Inr ''{}''), resolver_cls = Inr, replace_refs = (\<lambda>d b l. d)\<rparr>
      \<lparr>app_config = \<lparr>JSONSCHEMAS_ENDPOINT = ''/schemas'', JSONSCHEMAS_HOST = ''example.org'',
                      JSONSCHEMAS_URL_SCHEME = ''https''\<rparr>,
        url_map = \<lparr>rule_static = ''/schemas/'', rule_endpoint = ''schema'', rule_host = ''example.org''\<rparr>\<rparr>
      \<lparr>args = [], base_url = ''https://example.org/schemas/a.json'', current_user = 1\<rparr>
      ''a.json'' (PBool True) (PBool False)
      \<lparr>loader_instances = 2, loader_calls = [''https://example.org/schemas/a.json'']\<rparr>
    = (Inr ''{}'', \<lparr>loader_instances = 4,
         loader_calls = [''https://example.org/schemas/a.json'', ''https://example.org/schemas/a.json'']\<rparr>)
   \<and> Suc 0 \<le> (2::nat)"
proof -
  let ?env = "\<lparr>loader_cls = Some (\<lambda>url. Inr ''{}''), resolver_cls = Inr,
                replace_refs = (\<lambda>d b l. d)\<rparr> :: string components"
  let ?st = "\<lparr>app_config = \<lparr>JSONSCHEMAS_ENDPOINT = ''/schemas'', JSONSCHEMAS_HOST = ''example.org'',
                      JSONSCHEMAS_URL_SCHEME = ''https''\<rparr>,
        url_map = \<lparr>rule_static = ''/schemas/'', rule_endpoint = ''schema'', rule_host = ''example.org''\<rparr>\<rparr>"
  let ?req = "\<lparr>args = [], base_url = ''https://example.org/schemas/a.json'', current_user = 1\<rparr>"
  let ?w0 = "\<lparr>loader_instances = 0, loader_calls = []\<rparr>"
  let ?w1 = "\<lparr>loader_instances = 2, loader_calls = [''https://example.org/schemas/a.json'']\<rparr>"
  let ?w2 = "\<lparr>loader_instances = 4,
         loader_calls = [''https://example.org/schemas/a.json'', ''https://example.org/schemas/a.json'']\<rparr>"
  have run1: "get_schema ?env ?st ?req ''a.json'' (PBool True) (PBool False) ?w0 = (Inr ''{}'', ?w1)"
    by code_simp
  have run2: "get_schema ?env ?st ?req ''a.json'' (PBool True) (PBool False) ?w1 = (Inr ''{}'', ?w2)"
    by code_simp
  from run1 run2 get_schema_cache_never_hits
    [where env = ?env and st = ?st and req = ?req and p = "''a.json''"
       and with_refs = "PBool True" and resolved = "PBool False"
       and w = ?w0 and d = "''{}''" and w' = ?w1 and d' = "''{}''" and w'' = ?w2]
  show ?thesis by simp
qed

text \<open>
  Claim C1, on the code. Two calls of \<^verbatim>\<open>get_schema\<close> with the same path, flags and
  user return equal documents, but the second call calls the loader again: after
  it the loader has been called twice on the same URL. The docstring of
  \<^verbatim>\<open>wrapped\<close> says it memoizes results; the cache it memoizes in does not outlive
  the call.
\<close>

theorem get_schema_second_call_loads_again:
  "(let env = \<lparr>loader_cls = Some (\<lambda>url. Inr ''{}''), resolver_cls = Inr, replace_refs = (\<lambda>d b l. d)\<rparr>;
        st = \<lparr>app_config = \<lparr>JSONSCHEMAS_ENDPOINT = ''/schemas'', JSONSCHEMAS_HOST = ''example.org'',
                      JSONSCHEMAS_URL_SCHEME = ''https''\<rparr>,
              url_map = \<lparr>rule_static = ''/schemas/'', rule_endpoint = ''schema'', rule_host = ''example.org''\<rparr>\<rparr>;
        req = \<lparr>args = [], base_url = ''https://example.org/schemas/a.json'', current_user = 1\<rparr>;
        (r1, w1) = get_schema env st req ''a.json'' (PBool False) (PBool False)
                     \<lparr>loader_instances = 0, loader_calls = []\<rparr>;
        (r2, w2) = get_schema env st req ''a.json'' (PBool False) (PBool False) w1
    in r1 = Inr ''{}'' \<and> r2 = r1
     \<and> loader_calls w1 = [''https://example.org/schemas/a.json'']
     \<and> loader_calls w2 = [''https://example.org/schemas/a.json'', ''https://example.org/schemas/a.json'']
     \<and> loader_instances w2 = 2)"
  by code_simp

text \<open>
  Claim C3, on the code. With a loader that raises \<^verbatim>\<open>JSONSchemaNotFound\<close>,
  \<^verbatim>\<open>get_schema\<close> of the state does not raise that exception, as its docstring says
  it does: it catches it and raises the 404 \<^verbatim>\<open>HTTPException\<close> of \<^verbatim>\<open>abort\<close>
  itself, which the view passes on unchanged.
\<close>

theorem get_schema_aborts_on_not_found:
  "(let env = \<lparr>loader_cls = Some (\<lambda>url. Inl JSONSchemaNotFound), resolver_cls = Inr,
               replace_refs = (\<lambda>d b l. d)\<rparr>;
        st = \<lparr>app_config = \<lparr>JSONSCHEMAS_ENDPOINT = ''/schemas'', JSONSCHEMAS_HOST = ''example.org'',
                      JSONSCHEMAS_URL_SCHEME = ''https''\<rparr>,
              url_map = \<lparr>rule_static = ''/schemas/'', rule_endpoint = ''schema'', rule_host = ''example.org''\<rparr>\<rparr>;
        req = \<lparr>args = [], base_url = ''https://example.org/schemas/missing.json'', current_user = 1\<rparr>;
        w = \<lparr>loader_instances = 0, loader_calls = []\<rparr>
    in fst (get_schema env st req ''missing.json'' (PBool False) (PBool False) w)
         = (Inl (HTTPException 404) :: error + string)
     \<and> fst (get_schema env st req ''missing.json'' (PBool False) (PBool False) w)
         \<noteq> (Inl JSONSchemaNotFound :: error + string)
     \<and> fst (views_get_schema Inr Map.empty env st req ''missing.json'' w)
         = (Inl (HTTPException 404) :: error + string))"
  by code_simp

section \<open>Properties of the URL mapping\<close>

text \<open>
  Claim C10. \<^verbatim>\<open>list_schemas\<close> returns the empty list for every state.
\<close>

theorem list_schemas_empty: "list_schemas st = []"
  by (simp add: list_schemas_def)

text \<open>
  Claim C7. With the endpoint \<^verbatim>\<open>/schemas\<close>, the host \<^verbatim>\<open>example.org\<close> and the scheme
  \<^verbatim>\<open>https\<close> the state is constructed, and its \<^verbatim>\<open>path_to_url\<close> maps
  \<^verbatim>\<open>records/record-v1.0.0.json\<close> to
  \<^verbatim>\<open>https://example.org/schemas/records/record-v1.0.0.json\<close>.
\<close>

theorem path_to_url_example:
  "InvenioJSONSchemasState \<lparr>JSONSCHEMAS_ENDPOINT = ''/schemas'', JSONSCHEMAS_HOST = ''example.org'',
        JSONSCHEMAS_URL_SCHEME = ''https''\<rparr>
     = Inr \<lparr>app_config = \<lparr>JSONSCHEMAS_ENDPOINT = ''/schemas'', JSONSCHEMAS_HOST = ''example.org'',
                JSONSCHEMAS_URL_SCHEME = ''https''\<rparr>,
             url_map = \<lparr>rule_static = ''/schemas/'', rule_endpoint = ''schema'',
                rule_host = ''example.org''\<rparr>\<rparr>
   \<and> path_to_url \<lparr>app_config = \<lparr>JSONSCHEMAS_ENDPOINT = ''/schemas'', JSONSCHEMAS_HOST = ''example.org'',
                JSONSCHEMAS_URL_SCHEME = ''https''\<rparr>,
             url_map = \<lparr>rule_static = ''/schemas/'', rule_endpoint = ''schema'',
                rule_host = ''example.org''\<rparr>\<rparr>
         ''records/record-v1.0.0.json''
       = ''https://example.org/schemas/records/record-v1.0.0.json''"
  by code_simp

text \<open>
  Claim C5, on the code. \<^verbatim>\<open>url_to_path\<close> of the malformed URL \<^verbatim>\<open>http://[\<close> raises
  the \<^verbatim>\<open>ValueError\<close> of \<^verbatim>\<open>urlsplit\<close>, where its docstring promises \<^verbatim>\<open>None\<close> for a
  URL that cannot be resolved: \<^verbatim>\<open>urlsplit\<close> is called before the \<^verbatim>\<open>try\<close>, and the
  handler catches \<^verbatim>\<open>HTTPException\<close> only.
\<close>

theorem url_to_path_raises_on_bracket:
  "url_to_path \<lparr>app_config = \<lparr>JSONSCHEMAS_ENDPOINT = ''/schemas'', JSONSCHEMAS_HOST = ''example.org'',
                     JSONSCHEMAS_URL_SCHEME = ''https''\<rparr>,
                 url_map = \<lparr>rule_static = ''/schemas/'', rule_endpoint = ''schema'',
                     rule_host = ''example.org''\<rparr>\<rparr> ''http://[''
   = Inl ValueError"
  by code_simp

text \<open>
  Claim C2 as stated fails. The path \<^verbatim>\<open>a b\<close> is accepted by the routing rule, its
  URL is \<^verbatim>\<open>https://example.org/schemas/a%20b\<close>, and \<^verbatim>\<open>url_to_path\<close> of that URL is
  \<^verbatim>\<open>a%20b\<close>: building the URL escapes the space, and matching a URL does not undo
  the escape.
\<close>

theorem round_trip_fails_on_space:
  "adapter_match \<lparr>rule_static = ''/schemas/'', rule_endpoint = ''schema'', rule_host = ''example.org''\<rparr>
       ''example.org'' ''/schemas/a b'' = Inr (''schema'', ''a b'')
   \<and> (let st = \<lparr>app_config = \<lparr>JSONSCHEMAS_ENDPOINT = ''/schemas'', JSONSCHEMAS_HOST = ''example.org'',
                     JSONSCHEMAS_URL_SCHEME = ''https''\<rparr>,
                 url_map = \<lparr>rule_static = ''/schemas/'', rule_endpoint = ''schema'',
                     rule_host = ''example.org''\<rparr>\<rparr>
        in path_to_url st ''a b'' = ''https://example.org/schemas/a%20b''
         \<and> url_to_path st (path_to_url st ''a b'') = Inr (Some ''a%20b'')
         \<and> url_to_path st (path_to_url st ''a b'') \<noteq> Inr (Some ''a b''))"
  by code_simp

subsection \<open>The round trip from a path to its URL and back\<close>

lemma url_quote_unchanged:
  "list_all (\<lambda>c. c \<in> set (safe @ always_safe)) s \<Longrightarrow> url_quote safe s = s"
  by (induction s) (simp_all add: url_quote_def)

lemma url_chars_quoted_path:
  "list_all (\<lambda>c. c \<in> set (''/:'' @ always_safe)) url_chars"
  by code_simp

lemma url_chars_quoted_static:
  "list_all (\<lambda>c. c \<in> set (''/:|+'' @ always_safe)) url_chars"
  by code_simp

lemma url_text_quote_path: "url_text s \<Longrightarrow> url_quote ''/:'' s = s"
proof (rule url_quote_unchanged)
  assume "url_text s"
  then show "list_all (\<lambda>c. c \<in> set (''/:'' @ always_safe)) s"
    using url_chars_quoted_path unfolding url_text_def list_all_iff by blast
qed

lemma url_text_quote_static: "url_text s \<Longrightarrow> url_quote ''/:|+'' s = s"
proof (rule url_quote_unchanged)
  assume "url_text s"
  then show "list_all (\<lambda>c. c \<in> set (''/:|+'' @ always_safe)) s"
    using url_chars_quoted_static unfolding url_text_def list_all_iff by blast
qed

lemma host_chars_quoted:
  "list_all (\<lambda>c. c \<in> set (''/:|+'' @ always_safe)) (ascii_lowercase @ digits @ ''.-:'')"
  by code_simp

lemma host_chars_lower:
  "list_all (\<lambda>c. lower_char c = c) (ascii_lowercase @ digits @ ''.-:'')"
  by code_simp

lemma host_chars_plain:
  "list_all (\<lambda>c. c \<notin> set ''|/?#[]'') (ascii_lowercase @ digits @ ''.-:'')"
  by code_simp

lemma url_chars_plain:
  "list_all (\<lambda>c. c \<notin> set [CHR ''?'', CHR ''#'', CHR 0x0A]) url_chars"
  by code_simp

lemma scheme_chars_plain:
  "list_all (\<lambda>c. c \<notin> set '':/'') scheme_chars"
  by code_simp

lemma host_text_quote: "host_text s \<Longrightarrow> url_quote ''/:|+'' s = s"
proof (rule url_quote_unchanged)
  assume "host_text s"
  then show "list_all (\<lambda>c. c \<in> set (''/:|+'' @ always_safe)) s"
    using host_chars_quoted unfolding host_text_def list_all_iff by blast
qed

lemma host_text_lower: "host_text s \<Longrightarrow> lower s = s"
proof -
  assume "host_text s"
  then have "\<forall>c \<in> set s. lower_char c = c"
    using host_chars_lower unfolding host_text_def list_all_iff by blast
  then show ?thesis
    unfolding lower_def by (simp add: map_idI)
qed

lemma host_text_plain:
  assumes "host_text s"
  shows "\<forall>c \<in> set s. c \<notin> set ''|/?#[]''"
  using assms host_chars_plain unfolding host_text_def list_all_iff by blast

lemma url_text_plain:
  assumes "url_text s"
  shows "\<forall>c \<in> set s. c \<notin> set [CHR ''?'', CHR ''#'', CHR 0x0A]"
  using assms url_chars_plain unfolding url_text_def list_all_iff by blast

lemma scheme_text_chars: "scheme_text s \<Longrightarrow> list_all (\<lambda>c. c \<in> set scheme_chars) s"
  by (simp add: scheme_text_def)

lemma scheme_text_plain:
  assumes "scheme_text s"
  shows "\<forall>c \<in> set s. c \<notin> set '':/''"
  using scheme_text_chars [OF assms] scheme_chars_plain unfolding list_all_iff by blast


lemma before_first_append:
  "c \<notin> set xs \<Longrightarrow> before_first c (xs @ c # ys) = xs"
  by (induction xs) (auto simp: before_first_def)

lemma after_first_append:
  "c \<notin> set xs \<Longrightarrow> after_first c (xs @ c # ys) = ys"
  by (induction xs) (auto simp: after_first_def)

lemma quote_bar: "url_quote ''/:|+'' ''|'' = ''|''"
  by code_simp

lemma rule_build_plain:
  assumes "host_text (rule_host r)" and "url_text (rule_static r)" and "url_text p"
  shows "rule_build r p = (rule_host r, rule_static r @ p)"
proof -
  have "CHR ''|'' \<notin> set (rule_host r)"
    using host_text_plain [OF assms(1)] by auto
  then show ?thesis
    using before_first_append [of "CHR ''|''" "rule_host r" "rule_static r @ p"]
      after_first_append [of "CHR ''|''" "rule_host r" "rule_static r @ p"]
    by (simp add: rule_build_def Let_def quote_bar host_text_quote [OF assms(1)]
        url_text_quote_static [OF assms(2)] url_text_quote_path [OF assms(3)])
qed

lemma lstrip_static:
  assumes "startswith (e @ ''/<path:path>'') ''/''" and "\<not> startswith (e @ ''/'') ''//''"
    and "p \<noteq> []" and "hd p \<noteq> CHR ''/''"
  shows "CHR ''/'' # lstrip (CHR ''/'') ((e @ ''/'') @ p) = (e @ ''/'') @ p"
proof (cases e)
  case Nil
  obtain c cs where p: "p = c # cs" using assms(3) by (cases p) auto
  with assms(4) have "c \<noteq> CHR ''/''" by simp
  then show ?thesis using Nil p by (simp add: lstrip_def)
next
  case (Cons c e')
  with assms(1) have c: "c = CHR ''/''" by (simp add: startswith_def)
  show ?thesis
  proof (cases e')
    case Nil
    with Cons c assms(2) show ?thesis by (simp add: startswith_def)
  next
    case (Cons d e'')
    with \<open>e = c # e'\<close> c assms(2) have "d \<noteq> CHR ''/''" by (simp add: startswith_def)
    then show ?thesis using Cons \<open>e = c # e'\<close> c by (simp add: lstrip_def)
  qed
qed

lemma urlsplit_rest_plain:
  assumes "host_text h" and "url_text (CHR ''/'' # q)"
  shows "urlsplit_rest s (CHR ''/'' # CHR ''/'' # h @ CHR ''/'' # q)
       = Inr \<lparr>scheme = s, netloc = h, path = CHR ''/'' # q, query = [], fragment = []\<rparr>"
proof -
  have h: "\<forall>c \<in> set h. c \<notin> set ''|/?#[]''" by (rule host_text_plain [OF assms(1)])
  have q: "\<forall>c \<in> set (CHR ''/'' # q). c \<notin> set [CHR ''?'', CHR ''#'', CHR 0x0A]"
    by (rule url_text_plain [OF assms(2)])
  have "takeWhile (\<lambda>c. c \<notin> set ''/?#'') (h @ CHR ''/'' # q) = h"
    using h by (induction h) auto
  moreover have "dropWhile (\<lambda>c. c \<notin> set ''/?#'') (h @ CHR ''/'' # q) = CHR ''/'' # q"
    using h by (induction h) auto
  ultimately have nl: "splitnetloc (CHR ''/'' # CHR ''/'' # h @ CHR ''/'' # q) = (h, CHR ''/'' # q)"
    by (simp add: splitnetloc_def)
  have br: "CHR ''['' \<notin> set h" "CHR '']'' \<notin> set h" using h by auto
  have fq: "CHR ''#'' \<notin> set (CHR ''/'' # q)" "CHR ''?'' \<notin> set (CHR ''/'' # q)" using q by auto
  show ?thesis
    unfolding urlsplit_rest_def nl using br fq by simp
qed

lemma slash_not_scheme_char: "CHR ''/'' \<notin> set scheme_chars"
  by code_simp

lemma slash_not_digit: "CHR ''/'' \<notin> set digits"
  by code_simp

lemma urlsplit_built:
  assumes "scheme_text sch" and "host_text h" and "url_text (CHR ''/'' # q)"
  shows "\<exists>s. urlsplit ((if sch \<noteq> [] then sch @ '':'' else []) @ ''//'' @ h @ CHR ''/'' # q)
       = Inr \<lparr>scheme = s, netloc = h, path = CHR ''/'' # q, query = [], fragment = []\<rparr>"
proof (cases "sch = []")
  case True
  let ?u = "CHR ''/'' # CHR ''/'' # h @ CHR ''/'' # q"
  have "urlsplit ?u = urlsplit_rest [] ?u"
    using slash_not_scheme_char by (simp add: urlsplit_def Let_def before_first_def)
  then show ?thesis
    using True urlsplit_rest_plain [OF assms(2,3)] by simp
next
  case False
  have colon: "CHR '':'' \<notin> set sch"
    using scheme_text_plain [OF assms(1)] by auto
  let ?rest = "CHR ''/'' # CHR ''/'' # h @ CHR ''/'' # q"
  have hd: "before_first (CHR '':'') (sch @ CHR '':'' # ?rest) = sch"
    by (rule before_first_append [OF colon])
  have tl: "after_first (CHR '':'') (sch @ CHR '':'' # ?rest) = ?rest"
    by (rule after_first_append [OF colon])
  have sc: "list_all (\<lambda>c. c \<in> set scheme_chars) sch"
    by (rule scheme_text_chars [OF assms(1)])
  have "urlsplit (sch @ CHR '':'' # ?rest)
      = urlsplit_rest (if sch = ''http'' then ''http'' else lower sch) ?rest"
    unfolding urlsplit_def hd tl Let_def using False sc slash_not_digit by simp
  then show ?thesis
    using False urlsplit_rest_plain [OF assms(2,3)] by simp
qed


lemma url_text_append: "url_text (xs @ ys) = (url_text xs \<and> url_text ys)"
  by (simp add: url_text_def)

lemma url_text_slash: "url_text ''/''"
  by code_simp

lemma path_converter_accepts:
  assumes "path_converter p = Some p"
  shows "p \<noteq> []" and "hd p \<noteq> CHR ''/''"
  using assms by (cases p; simp split: if_splits)+

lemma adapter_match_static:
  assumes "path_converter p = Some p"
    and "stat @ p = CHR ''/'' # q" and "lstrip (CHR ''/'') q = q" and "h \<noteq> []"
  shows "adapter_match \<lparr>rule_static = stat, rule_endpoint = ep, rule_host = h\<rparr> h (stat @ p)
           = Inr (ep, p)"
proof -
  have "lstrip (CHR ''/'') (stat @ p) = q"
    using assms(2,3) by (simp add: lstrip_def)
  then have subject: "CHR ''/'' # lstrip (CHR ''/'') (stat @ p) = stat @ p"
    using assms(2) by simp
  have nonempty: "stat @ p \<noteq> []" using assms(2) by simp
  show ?thesis
    unfolding adapter_match_def Let_def
    using nonempty assms(1,4) by (simp add: subject startswith_def)
qed

text \<open>
  Claim C2, amended. Let the state be constructed from a configuration whose
  endpoint is made of letters, digits and the characters \<^verbatim>\<open>_.-/:\<close> and is empty or
  a slash followed by another character, whose host is not empty and made of
  lower-case letters, digits and \<^verbatim>\<open>.-:\<close>, and whose URL scheme is empty or a
  letter followed by scheme characters.
  Then for every path \<open>p\<close> that the rule's path converter accepts and that is made
  of letters, digits and the characters \<^verbatim>\<open>_.-/:\<close> only (characters that building a
  URL does not escape), \<^verbatim>\<open>url_to_path(path_to_url(p))\<close> returns \<open>p\<close>.
\<close>

theorem url_round_trip:
  assumes "InvenioJSONSchemasState cfg = Inr st"
    and "url_text (JSONSCHEMAS_ENDPOINT cfg)"
    and "\<not> startswith (JSONSCHEMAS_ENDPOINT cfg @ ''/'') ''//''"
    and "host_text (JSONSCHEMAS_HOST cfg)"
    and "scheme_text (JSONSCHEMAS_URL_SCHEME cfg)"
    and "path_converter p = Some p"
    and "url_text p"
    and "JSONSCHEMAS_HOST cfg \<noteq> []"
  shows "url_to_path st (path_to_url st p) = Inr (Some p)"
proof -
  let ?e = "JSONSCHEMAS_ENDPOINT cfg" and ?h = "JSONSCHEMAS_HOST cfg"
    and ?s = "JSONSCHEMAS_URL_SCHEME cfg"
  let ?r = "\<lparr>rule_static = ?e @ ''/'', rule_endpoint = ''schema'', rule_host = ?h\<rparr>"
  have lead: "startswith (?e @ ''/<path:path>'') ''/''"
    using assms(1) by (simp add: InvenioJSONSchemasState_def split: if_splits)
  have st: "st = \<lparr>app_config = cfg, url_map = ?r\<rparr>"
    using assms(1) by (simp add: InvenioJSONSchemasState_def split: if_splits)
  have p: "p \<noteq> []" "hd p \<noteq> CHR ''/''"
    using path_converter_accepts [OF assms(6)] by simp_all
  define q where "q = lstrip (CHR ''/'') ((?e @ ''/'') @ p)"
  have q: "CHR ''/'' # q = (?e @ ''/'') @ p"
    unfolding q_def by (rule lstrip_static [OF lead assms(3) p])
  have q_idem: "lstrip (CHR ''/'') q = q"
    unfolding q_def lstrip_def by simp
  have text_static: "url_text (?e @ ''/'')"
    using assms(2) url_text_slash unfolding url_text_append by (rule conjI)
  have text_q: "url_text (CHR ''/'' # q)"
    unfolding q using text_static assms(7) url_text_append [of "?e @ ''/''" p] by blast
  have "rule_build ?r p = (?h, (?e @ ''/'') @ p)"
    using rule_build_plain [of ?r p] assms(4,7) text_static by simp
  then have url: "path_to_url st p
      = (if ?s \<noteq> [] then ?s @ '':'' else []) @ ''//'' @ ?h @ CHR ''/'' # q"
    by (simp add: path_to_url_def adapter_build_def st q_def)
  obtain s where split: "urlsplit (path_to_url st p)
      = Inr \<lparr>scheme = s, netloc = ?h, path = CHR ''/'' # q, query = [], fragment = []\<rparr>"
    unfolding url using urlsplit_built [OF assms(5) assms(4) text_q] by blast
  have "adapter_match ?r ?h ((?e @ ''/'') @ p) = Inr (''schema'', p)"
    using adapter_match_static [OF assms(6) q [symmetric] q_idem assms(8)] by simp
  then have "adapter_match (url_map st) (map_bind ?h) (CHR ''/'' # q) = Inr (''schema'', p)"
    by (simp add: st map_bind_def host_text_lower [OF assms(4)] q)
  then show ?thesis
    by (simp add: url_to_path_def split)
qed

text \<open>
  The configuration of the specification's example satisfies the hypotheses, and the
  URL of \<^verbatim>\<open>records/record-v1.0.0.json\<close> is mapped back to that path.
\<close>

theorem url_round_trip_witness:
  "InvenioJSONSchemasState \<lparr>JSONSCHEMAS_ENDPOINT = ''/schemas'', JSONSCHEMAS_HOST = ''example.org'',
        JSONSCHEMAS_URL_SCHEME = ''https''\<rparr>
     = Inr \<lparr>app_config = \<lparr>JSONSCHEMAS_ENDPOINT = ''/schemas'', JSONSCHEMAS_HOST = ''example.org'',
                JSONSCHEMAS_URL_SCHEME = ''https''\<rparr>,
             url_map = \<lparr>rule_static = ''/schemas/'', rule_endpoint = ''schema'',
                rule_host = ''example.org''\<rparr>\<rparr>
   \<and> url_to_path \<lparr>app_config = \<lparr>JSONSCHEMAS_ENDPOINT = ''/schemas'', JSONSCHEMAS_HOST = ''example.org'',
                JSONSCHEMAS_URL_SCHEME = ''https''\<rparr>,
             url_map = \<lparr>rule_static = ''/schemas/'', rule_endpoint = ''schema'',
                rule_host = ''example.org''\<rparr>\<rparr>
         ''https://example.org/schemas/records/record-v1.0.0.json''
       = Inr (Some ''records/record-v1.0.0.json'')"
proof -
  let ?cfg = "\<lparr>JSONSCHEMAS_ENDPOINT = ''/schemas'', JSONSCHEMAS_HOST = ''example.org'',
        JSONSCHEMAS_URL_SCHEME = ''https''\<rparr>"
  let ?st = "\<lparr>app_config = ?cfg,
             url_map = \<lparr>rule_static = ''/schemas/'', rule_endpoint = ''schema'',
                rule_host = ''example.org''\<rparr>\<rparr>"
  have 1: "InvenioJSONSchemasState ?cfg = Inr ?st" by code_simp
  have 2: "url_text (JSONSCHEMAS_ENDPOINT ?cfg)" by code_simp
  have 3: "\<not> startswith (JSONSCHEMAS_ENDPOINT ?cfg @ ''/'') ''//''" by code_simp
  have 4: "host_text (JSONSCHEMAS_HOST ?cfg)" by code_simp
  have 5: "scheme_text (JSONSCHEMAS_URL_SCHEME ?cfg)" by code_simp
  have 6: "path_converter ''records/record-v1.0.0.json'' = Some ''records/record-v1.0.0.json''"
    by code_simp
  have 7: "url_text ''records/record-v1.0.0.json''" by code_simp
  have 8: "path_to_url ?st ''records/record-v1.0.0.json''
             = ''https://example.org/schemas/records/record-v1.0.0.json''"
    by code_simp
  have 9: "JSONSCHEMAS_HOST ?cfg \<noteq> []" by simp
  from url_round_trip [OF 1 2 3 4 5 6 7 9] 1 show ?thesis
    unfolding 8 by simp
qed

subsection \<open>What url_to_path raises, and the hosts it answers for\<close>

text \<open>
  \<^verbatim>\<open>url_to_path\<close> raises nothing but the \<^verbatim>\<open>ValueError\<close> of \<^verbatim>\<open>urlsplit\<close>. For a URL
  that \<^verbatim>\<open>urlsplit\<close> accepts, whose network location is not empty and, in lower
  case, is not the rule's host, it returns \<^verbatim>\<open>None\<close> whatever the path is (the
  bar, which separates host and path in the text that is matched, is assumed to
  occur in neither host).
\<close>

lemma urlsplit_rest_raises: "urlsplit_rest s url = Inl e \<Longrightarrow> e = ValueError"
  by (auto simp: urlsplit_rest_def Let_def split: prod.splits if_splits)

lemma urlsplit_raises: "urlsplit url = Inl e \<Longrightarrow> e = ValueError"
  by (auto simp: urlsplit_def Let_def split: if_splits dest: urlsplit_rest_raises)

lemma adapter_match_raises: "adapter_match r s p = Inl e \<Longrightarrow> e = HTTPException 404"
  by (auto simp: adapter_match_def Let_def split: if_splits option.splits)

lemma url_to_path_raises: "url_to_path st url = Inl e \<Longrightarrow> e = ValueError \<and> urlsplit url = Inl ValueError"
  by (auto simp: url_to_path_def split: sum.splits if_splits prod.splits
      dest: urlsplit_raises adapter_match_raises)

lemma other_host_no_prefix:
  assumes "server \<noteq> host" and "CHR ''|'' \<notin> set server" and "CHR ''|'' \<notin> set host"
  shows "\<not> startswith (server @ CHR ''|'' # tail) (host @ CHR ''|'' # stat)"
proof
  let ?subject = "server @ CHR ''|'' # tail" and ?fixed = "host @ CHR ''|'' # stat"
  assume "startswith ?subject ?fixed"
  then have "?subject = ?fixed @ drop (length ?fixed) ?subject"
    unfolding startswith_def by (metis append_take_drop_id)
  then obtain rest where eq: "?subject = host @ CHR ''|'' # rest"
    by (metis append_Cons append_assoc)
  have "before_first (CHR ''|'') ?subject = server"
    by (rule before_first_append [OF assms(2)])
  moreover have "before_first (CHR ''|'') (host @ CHR ''|'' # rest) = host"
    by (rule before_first_append [OF assms(3)])
  ultimately have "server = host"
    using eq by simp
  with assms(1) show False by simp
qed

lemma adapter_match_other_host:
  assumes "server \<noteq> rule_host r" and "server \<noteq> []"
    and "CHR ''|'' \<notin> set server" and "CHR ''|'' \<notin> set (rule_host r)"
  shows "adapter_match r server path_info = Inl (HTTPException 404)"
  using assms(2)
    other_host_no_prefix [OF assms(1,3,4), of "[]" "rule_static r"]
    other_host_no_prefix [OF assms(1,3,4), of "CHR ''/'' # lstrip (CHR ''/'') path_info" "rule_static r"]
  by (simp add: adapter_match_def Let_def)

lemma url_to_path_other_host:
  assumes "urlsplit url = Inr parts"
    and "map_bind (netloc parts) \<noteq> rule_host (url_map st)"
    and "netloc parts \<noteq> []"
    and "CHR ''|'' \<notin> set (map_bind (netloc parts))"
    and "CHR ''|'' \<notin> set (rule_host (url_map st))"
  shows "url_to_path st url = Inr None"
proof -
  have "map_bind (netloc parts) \<noteq> []"
    using assms(3) by (simp add: map_bind_def lower_def)
  then have "adapter_match (url_map st) (map_bind (netloc parts)) (path parts)
      = Inl (HTTPException 404)"
    using assms(2,4,5) by (simp add: adapter_match_other_host)
  then show ?thesis
    using assms(1) by (simp add: url_to_path_def)
qed

end
